theory Spec2Isabelle
  imports Main "HOL-Library.Word"
begin

section \<open>JavaScript strings\<close>

text \<open>
  A JavaScript string is a sequence of 16-bit UTF-16 code units; the regular expressions
  of \<open>main.ts\<close> carry no \<open>u\<close> flag, so they too work on code units.
  \<open>js\<close> turns an (ASCII) literal into such a string.
\<close>

type_synonym jschar = "16 word"
type_synonym jsstring = "jschar list"

definition js :: "string \<Rightarrow> jsstring" where
  "js s = map of_char s"

text \<open>
  The class \<open>\s\<close> of a regular expression and the characters removed by
  \<open>String.prototype.trim\<close> are the same set: WhiteSpace (TAB, VT, FF, SP, NBSP,
  ZWNBSP and the category Zs) and LineTerminator (LF, CR, LS, PS).
\<close>

definition is_ws :: "jschar \<Rightarrow> bool" where
  "is_ws c \<longleftrightarrow>
     c = 0x0009 \<or> c = 0x000A \<or> c = 0x000B \<or> c = 0x000C \<or> c = 0x000D \<or> c = 0x0020 \<or>
     c = 0x00A0 \<or> c = 0x1680 \<or> (0x2000 \<le> c \<and> c \<le> 0x200A) \<or> c = 0x2028 \<or>
     c = 0x2029 \<or> c = 0x202F \<or> c = 0x205F \<or> c = 0x3000 \<or> c = 0xFEFF"

definition SPACE :: jschar where "SPACE = 0x20"
definition DOT :: jschar where "DOT = 0x2E"
definition DASH :: jschar where "DASH = 0x2D"
definition COMMA :: jschar where "COMMA = 0x2C"

text \<open>\<open>String.prototype.trim\<close>: white space is dropped at both ends.\<close>

definition trim :: "jsstring \<Rightarrow> jsstring" where
  "trim s = rev (dropWhile is_ws (rev (dropWhile is_ws s)))"

section \<open>\<open>AiNotes.sanitizeFileName\<close>\<close>

text \<open>
  The character class \<open>[\\/:*?"<>|]\<close> of the first \<open>replace\<close>: backslash, slash,
  colon, asterisk, question mark, double quote, less-than, greater-than, vertical bar.
\<close>

definition is_forbidden :: "jschar \<Rightarrow> bool" where
  "is_forbidden c \<longleftrightarrow>
     c = 0x5C \<or> c = 0x2F \<or> c = 0x3A \<or> c = 0x2A \<or> c = 0x3F \<or> c = 0x22 \<or>
     c = 0x3C \<or> c = 0x3E \<or> c = 0x7C"

text \<open>\<open>.replace(/[\\/:*?"<>|]/g, '-')\<close>: every match is one character, replaced by a dash.\<close>

definition replace_forbidden :: "jsstring \<Rightarrow> jsstring" where
  "replace_forbidden s = map (\<lambda>c. if is_forbidden c then DASH else c) s"

text \<open>
  \<open>.replace(/\s+/g, ' ')\<close>: the matches of a global, greedy \<open>\s+\<close> are the maximal runs
  of white space, found left to right; each is replaced by one space.
\<close>

function collapse_ws :: "jsstring \<Rightarrow> jsstring" where
  "collapse_ws [] = []"
| "collapse_ws (c # cs) =
     (if is_ws c then SPACE # collapse_ws (dropWhile is_ws cs) else c # collapse_ws cs)"
  by pat_completeness auto
termination
  by (relation "measure length") (auto simp: length_dropWhile_le less_Suc_eq_le)

text \<open>
  \<open>.replace(/[ .]+$/g, '')\<close>: without the \<open>m\<close> flag \<open>$\<close> is the end of the input, so
  the only match is the maximal run of spaces and dots that ends the string.
\<close>

definition is_space_or_dot :: "jschar \<Rightarrow> bool" where
  "is_space_or_dot c \<longleftrightarrow> c = SPACE \<or> c = DOT"

definition strip_trailing :: "jsstring \<Rightarrow> jsstring" where
  "strip_trailing s = rev (dropWhile is_space_or_dot (rev s))"

definition sanitizeFileName :: "jsstring \<Rightarrow> jsstring" where
  "sanitizeFileName name =
     (let replaced = trim (collapse_ws (replace_forbidden name))
      in strip_trailing replaced)"

text \<open>
  What the specification's wording of the sanitization describes: the forbidden characters
  are stripped, that is removed, before white space is collapsed and the ends are trimmed.
  It is compared with \<open>sanitizeFileName\<close> below.
\<close>

definition sanitize_by_removal :: "jsstring \<Rightarrow> jsstring" where
  "sanitize_by_removal s =
     strip_trailing (trim (collapse_ws (filter (\<lambda>c. \<not> is_forbidden c) s)))"

text \<open>
  Shape of a sanitized name: every white space character in it is a space, and no two
  white space characters are adjacent.
\<close>

fun ws_norm :: "jsstring \<Rightarrow> bool" where
  "ws_norm [] = True"
| "ws_norm [c] = (if is_ws c then c = SPACE else True)"
| "ws_norm (c # d # cs) = ((if is_ws c then c = SPACE \<and> \<not> is_ws d else True) \<and> ws_norm (d # cs))"

definition well_formed_name :: "jsstring \<Rightarrow> bool" where
  "well_formed_name r \<longleftrightarrow>
     list_all (\<lambda>c. \<not> is_forbidden c) r \<and> ws_norm r \<and>
     (if r = [] then True else \<not> is_ws (hd r) \<and> \<not> is_ws (last r) \<and> last r \<noteq> DOT)"

text \<open>
  What collapsing and trimming amount to, said without the regular expression: the words
  of a string are its maximal runs of characters other than white space, in order, and
  the collapsed and trimmed string is these words joined by single spaces.
\<close>

function ws_words :: "jsstring \<Rightarrow> jsstring list" where
  "ws_words [] = []"
| "ws_words (c # cs) =
     (if is_ws c then ws_words (dropWhile is_ws cs)
      else (c # takeWhile (\<lambda>d. \<not> is_ws d) cs) # ws_words (dropWhile (\<lambda>d. \<not> is_ws d) cs))"
  by pat_completeness auto
termination
  by (relation "measure length") (auto simp: length_dropWhile_le less_Suc_eq_le)

fun join_words :: "jsstring list \<Rightarrow> jsstring" where
  "join_words [] = []"
| "join_words [w] = w"
| "join_words (w # v # ws) = w @ SPACE # join_words (v # ws)"

section \<open>Numbers in template literals\<close>

text \<open>
  \<open>`transcription-${Date.now()}`\<close> renders the integer number of milliseconds in decimal
  (\<open>Number::toString\<close>; the exponent form only starts at \<open>1e21\<close>).
\<close>

function digits :: "nat \<Rightarrow> jsstring" where
  "digits n = (if n < 10 then [of_nat (48 + n)] else digits (n div 10) @ [of_nat (48 + n mod 10)])"
  by pat_completeness auto
termination
  by (relation "measure id") auto

declare digits.simps [simp del]

definition number_toString :: "int \<Rightarrow> jsstring" where
  "number_toString i = (if i < 0 then DASH # digits (nat (- i)) else digits (nat i))"

section \<open>Data model\<close>

text \<open>The interfaces \<open>TranscriptionType\<close> and \<open>AiNotesSettings\<close>.\<close>

record TranscriptionType =
  name :: jsstring
  description :: jsstring
  prompt :: jsstring

record AiNotesSettings =
  geminiApiKey :: jsstring
  model :: jsstring
  customTranscriptionTypes :: "TranscriptionType list"

definition DEFAULT_SETTINGS :: AiNotesSettings where
  "DEFAULT_SETTINGS =
     \<lparr>geminiApiKey = [], model = js ''gemini-1.5-flash'', customTranscriptionTypes = []\<rparr>"

text \<open>A \<open>Blob\<close>: its bytes and its MIME type. \<open>new Blob(parts, {type})\<close> concatenates.\<close>

record Blob =
  blob_bytes :: "8 word list"
  blob_type :: jsstring

definition new_Blob :: "Blob list \<Rightarrow> jsstring \<Rightarrow> Blob" where
  "new_Blob parts ty = \<lparr>blob_bytes = concat (map blob_bytes parts), blob_type = ty\<rparr>"

definition blob_size :: "Blob \<Rightarrow> nat" where
  "blob_size b = length (blob_bytes b)"

text \<open>The blob of a capture without chunks: \<open>new Blob([], { type: 'audio/webm' })\<close>.\<close>

definition empty_webm :: Blob where
  "empty_webm = new_Blob [] (js ''audio/webm'')"

text \<open>
  A thrown or rejected value. \<open>error.message\<close> is \<open>undefined\<close> for a value that is not an
  \<open>Error\<close> (the \<open>ProgressEvent\<close> a \<open>FileReader\<close> rejects with), and string concatenation
  then prints \<open>undefined\<close>.
\<close>

datatype error = Thrown "jsstring option"

fun message_text :: "error \<Rightarrow> jsstring" where
  "message_text (Thrown None) = js ''undefined''"
| "message_text (Thrown (Some m)) = m"

text \<open>
  Media capture. The tracks of a stream are objects of the browser, shared with whoever
  holds the stream: their \<open>readyState\<close> lives in a store indexed by track.
\<close>

type_synonym track_id = nat

datatype ready_state = Live | Ended

type_synonym track_store = "track_id \<Rightarrow> ready_state"

record MediaStream =
  getTracks :: "track_id list"

datatype recording_state = Inactive | Recording | Paused

record MediaRecorder =
  recorder_stream :: MediaStream
  state :: recording_state

text \<open>The fields of the plugin class \<open>AiNotes\<close>.\<close>

record AiNotes =
  settings :: AiNotesSettings
  mediaRecorder :: "MediaRecorder option"
  audioChunks :: "Blob list"
  stream :: "MediaStream option"
  currentTranscriptionTitle :: "jsstring option"

text \<open>The status of \<open>TranscriptionProgressModal\<close>; a new modal is in \<open>transcribing\<close>.\<close>

datatype ProgressStatus = Transcribing | Saving | Completed | Error





section \<open>The host and the trace of calls\<close>

text \<open>The parts of the request \<open>model.generateContent([{inlineData}, {text}])\<close>.\<close>

datatype part = InlineData jsstring "jsstring option" | Text jsstring

text \<open>
  What the plugin does to its surroundings, in the order it does it: the calls on the
  progress modal, the \<open>FileReader\<close>, the Gemini SDK, the vault and the workspace.
\<close>

datatype event =
    ProgressOpen
  | UpdateStatus ProgressStatus
  | ProgressClose
  | ScheduleProgressClose nat
  | CallTranscribe Blob jsstring
  | ReadAsDataURL Blob
  | GenerateContent jsstring jsstring "part list"
  | CreateFolder jsstring
  | VaultCreate jsstring jsstring
  | OpenLinkText jsstring
  | Notice jsstring
  | GetUserMedia
  | OpenTranscriptionTypeModal Blob
  | ShowRecordingUI
  | RecordingModalClose

text \<open>
  The answers of the surroundings, which the code does not decide: each asynchronous call
  either resolves or rejects. \<open>getGenerativeModel\<close> takes the API key and the model name
  and stands for \<open>new GoogleGenerativeAI(key).getGenerativeModel({model})\<close>, which the SDK
  may refuse by throwing; \<open>generateContent\<close> takes the API key, the model name and the
  parts and stands for the request together with \<open>result.response.text()\<close>.
  \<open>vault.createFolder\<close> has no entry: the code swallows its rejection, so both answers
  continue alike.
\<close>

record host =
  getGenerativeModel :: "jsstring \<Rightarrow> jsstring \<Rightarrow> error option"
  readAsDataURL :: "Blob \<Rightarrow> error + jsstring"
  generateContent :: "jsstring \<Rightarrow> jsstring \<Rightarrow> part list \<Rightarrow> error + jsstring"
  vault_create :: "jsstring \<Rightarrow> jsstring \<Rightarrow> error option"
  openLinkText :: "jsstring \<Rightarrow> error option"
  Date_now :: int
  getUserMedia :: "error + MediaStream"
  new_MediaRecorder :: "MediaStream \<Rightarrow> error option"

section \<open>Recording\<close>

text \<open>\<open>AiNotes.initRecording\<close>: the updated plugin, the calls made and the returned flag.\<close>

definition initRecording :: "host \<Rightarrow> AiNotes \<Rightarrow> AiNotes \<times> event list \<times> bool" where
  "initRecording h p =
     (if geminiApiKey (settings p) = [] then
        (p, [Notice (js ''Please set your Gemini API key in the settings.'')], False)
      else
        (case getUserMedia h of
           Inl e \<Rightarrow>
             (p, [GetUserMedia, Notice (js ''Error initializing recording: '' @ message_text e)], False)
         | Inr s \<Rightarrow>
             (let p1 = p\<lparr>stream := Some s\<rparr> in
              case new_MediaRecorder h s of
                Some e \<Rightarrow>
                  (p1, [GetUserMedia, Notice (js ''Error initializing recording: '' @ message_text e)],
                   False)
              | None \<Rightarrow>
                  (p1\<lparr>mediaRecorder := Some \<lparr>recorder_stream = s, state = Inactive\<rparr>,
                      audioChunks := []\<rparr>,
                   [GetUserMedia], True))))"

text \<open>
  The two listeners \<open>initRecording\<close> registers on the recorder: \<open>dataavailable\<close> appends
  the chunk, \<open>stop\<close> builds the blob and opens the type selection.
\<close>

datatype recorder_event = DataAvailable Blob | Stop

fun on_recorder_event :: "AiNotes \<Rightarrow> recorder_event \<Rightarrow> AiNotes \<times> event list" where
  "on_recorder_event p (DataAvailable d) = (p\<lparr>audioChunks := audioChunks p @ [d]\<rparr>, [])"
| "on_recorder_event p Stop =
     (p, [OpenTranscriptionTypeModal (new_Blob (audioChunks p) (js ''audio/webm''))])"

text \<open>
  \<open>AiNotes.start\<close>. \<open>MediaRecorder.start()\<close> throws \<open>InvalidStateError\<close> unless the
  recorder is inactive.
\<close>

definition start :: "AiNotes \<Rightarrow> error + AiNotes" where
  "start p =
     (case mediaRecorder p of
        None \<Rightarrow> Inr p
      | Some r \<Rightarrow>
          if state r \<noteq> Inactive then Inl (Thrown (Some (js ''InvalidStateError'')))
          else Inr (p\<lparr>mediaRecorder := Some (r\<lparr>state := Recording\<rparr>)\<rparr>))"

text \<open>
  \<open>AiNotes.stopRecording\<close>, on the plugin and the store of tracks.
  \<open>MediaRecorder.stop()\<close> makes the recorder inactive (its \<open>dataavailable\<close> and \<open>stop\<close>
  events are dispatched later); \<open>track.stop()\<close> ends a track.
\<close>

definition stopRecording :: "AiNotes \<Rightarrow> track_store \<Rightarrow> AiNotes \<times> track_store" where
  "stopRecording p ts =
     (let p1 = (case mediaRecorder p of
                  None \<Rightarrow> p
                | Some r \<Rightarrow>
                    if state r \<noteq> Inactive
                    then p\<lparr>mediaRecorder := Some (r\<lparr>state := Inactive\<rparr>)\<rparr>
                    else p)
      in case stream p1 of
           None \<Rightarrow> (p1, ts)
         | Some s \<Rightarrow>
             (p1\<lparr>stream := None\<rparr>, foldl (\<lambda>st t. st(t := Ended)) ts (getTracks s)))"

text \<open>
  The click handler of the start button of \<open>RecordingModal\<close>. A throw of \<open>start\<close> ends
  the handler.
\<close>

definition startButton_onClick :: "host \<Rightarrow> AiNotes \<Rightarrow> AiNotes \<times> event list" where
  "startButton_onClick h p =
     (case initRecording h p of
        (p1, evs, success) \<Rightarrow>
          if success then
            (case start p1 of
               Inl e \<Rightarrow> (p1, evs)
             | Inr p2 \<Rightarrow> (p2, evs @ [ShowRecordingUI]))
          else (p1, evs @ [RecordingModalClose]))"

section \<open>Transcription and saving\<close>

text \<open>\<open>String.prototype.split\<close> with a one-character separator.\<close>

fun split_at :: "jschar \<Rightarrow> jsstring \<Rightarrow> jsstring list" where
  "split_at sep [] = [[]]"
| "split_at sep (c # cs) =
     (if c = sep then [] # split_at sep cs
      else (case split_at sep cs of
              [] \<Rightarrow> [[c]]
            | f # fs \<Rightarrow> (c # f) # fs))"

text \<open>
  \<open>AiNotes.blobToBase64\<close>: \<open>dataUrl.split(',')[1]\<close>, which is \<open>undefined\<close> when the
  data URL has no comma.
\<close>

definition blobToBase64 :: "host \<Rightarrow> Blob \<Rightarrow> error + jsstring option" where
  "blobToBase64 h blob =
     (case readAsDataURL h blob of
        Inl e \<Rightarrow> Inl e
      | Inr dataUrl \<Rightarrow>
          Inr (case split_at COMMA dataUrl of
                 _ # base64Data # _ \<Rightarrow> Some base64Data
               | _ \<Rightarrow> None))"

text \<open>\<open>AiNotes.transcribe\<close>: the result and the calls made.\<close>

definition transcribe :: "host \<Rightarrow> AiNotes \<Rightarrow> Blob \<Rightarrow> jsstring \<Rightarrow> (error + jsstring) \<times> event list" where
  "transcribe h p audioBlob prmpt =
     (let key = geminiApiKey (settings p);
          m = model (settings p)
      in case getGenerativeModel h key m of
           Some e \<Rightarrow> (Inl e, [])
         | None \<Rightarrow>
             (case blobToBase64 h audioBlob of
                Inl e \<Rightarrow> (Inl e, [ReadAsDataURL audioBlob])
              | Inr audioBase64 \<Rightarrow>
                  (let parts = [InlineData (js ''audio/webm'') audioBase64, Text prmpt]
                   in (generateContent h key m parts,
                       [ReadAsDataURL audioBlob, GenerateContent key m parts]))))"

text \<open>
  The path of the note, lines 146 to 151 of \<open>transcribeAndSave\<close>: the trimmed title is
  sanitized when it is not empty, and an empty result falls back to the time stamp.
\<close>

definition notePath :: "jsstring option \<Rightarrow> int \<Rightarrow> jsstring" where
  "notePath title now =
     (let folderPath = js ''transcriptions'';
          providedTitle = trim (case title of None \<Rightarrow> [] | Some t \<Rightarrow> t);
          safeBase = (if providedTitle \<noteq> [] then sanitizeFileName providedTitle else []);
          baseName = (if safeBase \<noteq> [] \<and> length safeBase > 0 then safeBase
                      else js ''transcription-'' @ number_toString now);
          fileName = baseName @ js ''.md''
      in folderPath @ js ''/'' @ fileName)"

text \<open>The \<open>catch\<close> block of \<open>transcribeAndSave\<close>.\<close>

definition on_failure :: "error \<Rightarrow> event list" where
  "on_failure e =
     [UpdateStatus Error, Notice (js ''Error during transcription: '' @ message_text e),
      ScheduleProgressClose 1500]"

text \<open>
  \<open>AiNotes.transcribeAndSave\<close>: the updated plugin and the calls made, in order. While
  the run waits for an answer no other handler is taken to touch the plugin: runs do not
  overlap.
\<close>

definition transcribeAndSave :: "host \<Rightarrow> AiNotes \<Rightarrow> Blob \<Rightarrow> jsstring \<Rightarrow> AiNotes \<times> event list" where
  "transcribeAndSave h p audioBlob prmpt =
     (let opening = [ProgressOpen, UpdateStatus Transcribing, CallTranscribe audioBlob prmpt] in
      case transcribe h p audioBlob prmpt of
        (Inl e, evs) \<Rightarrow> (p, opening @ evs @ on_failure e)
      | (Inr transcription, evs) \<Rightarrow>
          (let filePath = notePath (currentTranscriptionTitle p) (Date_now h);
               saving = opening @ evs @
                 [UpdateStatus Saving, CreateFolder (js ''transcriptions''),
                  VaultCreate filePath transcription]
           in case vault_create h filePath transcription of
                Some e \<Rightarrow> (p, saving @ on_failure e)
              | None \<Rightarrow>
                  (let p1 = p\<lparr>currentTranscriptionTitle := None\<rparr>;
                       opened = saving @ [ProgressClose, OpenLinkText filePath]
                   in case openLinkText h filePath of
                        Some e \<Rightarrow> (p1, opened @ on_failure e)
                      | None \<Rightarrow> (p1, opened))))"



section \<open>Choosing the transcription type\<close>

definition defaultTypes :: "TranscriptionType list" where
  "defaultTypes =
     [\<lparr>name = js ''Simple'', description = js ''A plain transcription of the audio.'',
       prompt = js ''Transcribe the audio.''\<rparr>,
      \<lparr>name = js ''Standard'', description = js ''Transcription with key takeaways and a summary.'',
       prompt = js ''Transcribe the audio. Also, extract key takeaways and a summary.''\<rparr>,
      \<lparr>name = js ''Detailed'',
       description = js ''Transcription with takeaways, summary, action items, and questions.'',
       prompt = js ''Transcribe the audio. Also, extract key takeaways, a summary, action items, and a list of questions asked.''\<rparr>]"

text \<open>
  \<open>TranscriptionTypeModal\<close>: the blob it was built with and the rows \<open>onOpen\<close> lays out,
  so that \<open>onOpen p b\<close> is the modal of the call \<open>OpenTranscriptionTypeModal b\<close>, that is
  of \<open>new TranscriptionTypeModal(app, plugin, b).open()\<close>. The rows are
  first the built-in types, then the stored ones. The handler of the \<open>i\<close>-th row's button
  runs \<open>transcribeAndSave\<close> with that row's prompt (and closes the modal while the run
  is waiting for its first answer); there is no button beyond the last row.
\<close>

record TranscriptionTypeModal =
  audioBlob :: Blob
  rows :: "TranscriptionType list"

definition onOpen :: "AiNotes \<Rightarrow> Blob \<Rightarrow> TranscriptionTypeModal" where
  "onOpen p b = \<lparr>audioBlob = b, rows = defaultTypes @ customTranscriptionTypes (settings p)\<rparr>"

definition select_onClick :: "host \<Rightarrow> AiNotes \<Rightarrow> TranscriptionTypeModal \<Rightarrow> nat \<Rightarrow> (AiNotes \<times> event list) option" where
  "select_onClick h p m i =
     (if i < length (rows m)
      then Some (transcribeAndSave h p (audioBlob m) (prompt (rows m ! i)))
      else None)"

section \<open>Sample surroundings\<close>

text \<open>
  Concrete plugins and hosts on which the theorems below are instantiated: a host where
  every call succeeds, and hosts where the request, the creation of the note or its
  opening is rejected. The reader of the sample host answers with the data URL of the
  blob: no data for a blob without bytes, \<open>AQID\<close> for the three bytes of the sample
  blob.
\<close>

definition sample_plugin :: AiNotes where
  "sample_plugin =
     \<lparr>settings = \<lparr>geminiApiKey = js ''k'', model = js ''gemini-1.5-flash'',
                  customTranscriptionTypes =
                    [\<lparr>name = js ''Simple'', description = [], prompt = js ''Summarise.''\<rparr>]\<rparr>,
      mediaRecorder = None, audioChunks = [], stream = None,
      currentTranscriptionTitle = Some (js ''Team: Meeting/Alex? '')\<rparr>"

definition sample_blob :: Blob where
  "sample_blob = \<lparr>blob_bytes = [1, 2, 3], blob_type = js ''audio/webm''\<rparr>"

definition host_ok :: host where
  "host_ok =
     \<lparr>getGenerativeModel = (\<lambda>k m. None),
      readAsDataURL =
        (\<lambda>b. Inr (if blob_bytes b = [] then js ''data:audio/webm;base64,''
                   else js ''data:audio/webm;base64,AQID'')),
      generateContent = (\<lambda>k m ps. Inr (js ''hello'')),
      vault_create = (\<lambda>path content. None),
      openLinkText = (\<lambda>path. None),
      Date_now = 1730000000000,
      getUserMedia = Inr \<lparr>getTracks = [0, 1]\<rparr>,
      new_MediaRecorder = (\<lambda>s. None)\<rparr>"

definition host_request_fails :: host where
  "host_request_fails =
     host_ok\<lparr>generateContent := (\<lambda>k m ps. Inl (Thrown (Some (js ''API key not valid''))))\<rparr>"

definition host_save_fails :: host where
  "host_save_fails =
     host_ok\<lparr>vault_create := (\<lambda>path content. Some (Thrown (Some (js ''File already exists.''))))\<rparr>"

definition host_open_fails :: host where
  "host_open_fails = host_ok\<lparr>openLinkText := (\<lambda>path. Some (Thrown None))\<rparr>"

text \<open>
  The plugin of a capture on the sample host: after \<open>initRecording\<close>, after \<open>start\<close>
  and after \<open>stopRecording\<close>, with no \<open>dataavailable\<close> event in between.
\<close>

definition sample_stream :: MediaStream where
  "sample_stream = \<lparr>getTracks = [0, 1]\<rparr>"

definition plugin_initialised :: AiNotes where
  "plugin_initialised =
     sample_plugin\<lparr>stream := Some sample_stream,
                   mediaRecorder := Some \<lparr>recorder_stream = sample_stream, state = Inactive\<rparr>,
                   audioChunks := []\<rparr>"

definition plugin_recording :: AiNotes where
  "plugin_recording =
     plugin_initialised\<lparr>mediaRecorder := Some \<lparr>recorder_stream = sample_stream, state = Recording\<rparr>\<rparr>"

definition plugin_stopped :: AiNotes where
  "plugin_stopped =
     plugin_recording\<lparr>mediaRecorder := Some \<lparr>recorder_stream = sample_stream, state = Inactive\<rparr>,
                      stream := None\<rparr>"

section \<open>Properties of the file name sanitization\<close>

lemma js_Nil: "js [] = []"
  by (simp add: js_def)

lemma js_Cons: "js (c # cs) = of_char c # js cs"
  by (simp add: js_def)


lemma is_ws_SPACE: "is_ws SPACE"
  by (simp add: is_ws_def SPACE_def)

lemma not_ws_DASH: "\<not> is_ws DASH"
  by (simp add: is_ws_def DASH_def)

lemma not_forbidden_SPACE: "\<not> is_forbidden SPACE"
  by (simp add: is_forbidden_def SPACE_def)

lemma not_forbidden_DASH: "\<not> is_forbidden DASH"
  by (simp add: is_forbidden_def DASH_def)

lemma forbidden_not_ws: "is_forbidden c \<Longrightarrow> \<not> is_ws c"
  by (auto simp: is_forbidden_def is_ws_def)

lemma ws_norm_Cons:
  "ws_norm (c # xs) \<longleftrightarrow> (is_ws c \<longrightarrow> c = SPACE \<and> (xs = [] \<or> \<not> is_ws (hd xs))) \<and> ws_norm xs"
  by (cases xs) auto

lemma ws_norm_append: "ws_norm (xs @ ys) \<Longrightarrow> ws_norm xs \<and> ws_norm ys"
  by (induction xs rule: ws_norm.induct) (auto simp: ws_norm_Cons)

lemma ws_norm_ws: "ws_norm xs \<Longrightarrow> c \<in> set xs \<Longrightarrow> is_ws c \<Longrightarrow> c = SPACE"
  by (induction xs rule: ws_norm.induct) auto

lemma collapse_ws_fix: "ws_norm s \<Longrightarrow> collapse_ws s = s"
  by (induction s rule: ws_norm.induct) (auto simp: is_ws_SPACE)

lemma collapse_ws_keeps_start:
  "t = [] \<or> \<not> is_ws (hd t) \<Longrightarrow> collapse_ws t = [] \<or> \<not> is_ws (hd (collapse_ws t))"
  by (cases t) auto

lemma ws_norm_collapse_ws: "ws_norm (collapse_ws s)"
proof (induction s rule: collapse_ws.induct)
  case 1
  show ?case by simp
next
  case (2 c cs)
  show ?case
  proof (cases "is_ws c")
    case True
    let ?t = "dropWhile is_ws cs"
    have "?t = [] \<or> \<not> is_ws (hd ?t)"
      using hd_dropWhile [of is_ws cs] by blast
    then have "collapse_ws ?t = [] \<or> \<not> is_ws (hd (collapse_ws ?t))"
      by (rule collapse_ws_keeps_start)
    with True 2 show ?thesis
      by (simp add: ws_norm_Cons)
  next
    case False
    with 2 show ?thesis
      by (simp add: ws_norm_Cons)
  qed
qed

lemma filter_collapse_ws:
  "filter (\<lambda>c. \<not> is_ws c) (collapse_ws s) = filter (\<lambda>c. \<not> is_ws c) s"
proof (induction s rule: collapse_ws.induct)
  case 1
  show ?case by simp
next
  case (2 c cs)
  have "filter (\<lambda>c. \<not> is_ws c) (dropWhile is_ws cs) = filter (\<lambda>c. \<not> is_ws c) cs"
    by (induction cs) auto
  with 2 show ?case
    by (simp add: is_ws_SPACE)
qed

lemma set_collapse_ws: "set (collapse_ws s) \<subseteq> insert SPACE (set s)"
proof (induction s rule: collapse_ws.induct)
  case 1
  show ?case by simp
next
  case (2 c cs)
  have "set (dropWhile is_ws cs) \<subseteq> set cs"
    by (simp add: set_dropWhileD subsetI)
  with 2 show ?case
    by auto
qed


lemma drop_end_split: "\<exists>t. s = rev (dropWhile P (rev s)) @ t \<and> (\<forall>c\<in>set t. P c)"
proof -
  have "rev s = takeWhile P (rev s) @ dropWhile P (rev s)"
    by simp
  then have "s = rev (dropWhile P (rev s)) @ rev (takeWhile P (rev s))"
    by (metis rev_append rev_rev_ident)
  moreover have "\<forall>c\<in>set (rev (takeWhile P (rev s))). P c"
    by (auto dest: set_takeWhileD)
  ultimately show ?thesis by blast
qed

lemma drop_end_last:
  "rev (dropWhile P (rev s)) = [] \<or> \<not> P (last (rev (dropWhile P (rev s))))"
  using hd_dropWhile [of P "rev s"] by (auto simp: last_rev)

lemma drop_end_fix: "s = [] \<or> \<not> P (last s) \<Longrightarrow> rev (dropWhile P (rev s)) = s"
  by (cases "rev s") (auto simp: last_rev hd_rev dest: arg_cong [where f = rev])



lemma replace_forbidden_clean: "list_all (\<lambda>c. \<not> is_forbidden c) (replace_forbidden s)"
  by (induction s) (auto simp: replace_forbidden_def not_forbidden_DASH)

lemma replace_forbidden_fix:
  "list_all (\<lambda>c. \<not> is_forbidden c) s \<Longrightarrow> replace_forbidden s = s"
  by (induction s) (auto simp: replace_forbidden_def)

lemma dropWhile_start: "dropWhile P s = [] \<or> \<not> P (hd (dropWhile P s))"
  using hd_dropWhile [of P s] by blast

lemma trim_split:
  "\<exists>l t. s = l @ trim s @ t \<and> (\<forall>c\<in>set l. is_ws c) \<and> (\<forall>c\<in>set t. is_ws c)"
proof -
  obtain t where t: "dropWhile is_ws s = trim s @ t" "\<forall>c\<in>set t. is_ws c"
    using drop_end_split [of "dropWhile is_ws s" is_ws] by (auto simp: trim_def)
  have "s = takeWhile is_ws s @ dropWhile is_ws s"
    by simp
  with t have "s = takeWhile is_ws s @ trim s @ t"
    by simp
  moreover have "\<forall>c\<in>set (takeWhile is_ws s). is_ws c"
    by (auto dest: set_takeWhileD)
  ultimately show ?thesis using t(2) by blast
qed

lemma prefix_start: "b = r @ t \<Longrightarrow> b = [] \<or> \<not> P (hd b) \<Longrightarrow> r = [] \<or> \<not> P (hd r)"
  by (cases r) auto

lemma trim_start: "trim s = [] \<or> \<not> is_ws (hd (trim s))"
proof -
  obtain t where "dropWhile is_ws s = trim s @ t"
    using drop_end_split [of "dropWhile is_ws s" is_ws] by (auto simp: trim_def)
  then show ?thesis
    using dropWhile_start [of is_ws s] by (rule prefix_start)
qed

lemma trim_fix: "s = [] \<or> (\<not> is_ws (hd s) \<and> \<not> is_ws (last s)) \<Longrightarrow> trim s = s"
proof -
  assume a: "s = [] \<or> (\<not> is_ws (hd s) \<and> \<not> is_ws (last s))"
  then have 1: "dropWhile is_ws s = s"
    by (cases s) auto
  from a have "s = [] \<or> \<not> is_ws (last s)"
    by blast
  then have "rev (dropWhile is_ws (rev s)) = s"
    by (rule drop_end_fix)
  with 1 show ?thesis
    by (simp add: trim_def)
qed

lemma strip_trailing_split:
  "\<exists>t. s = strip_trailing s @ t \<and> (\<forall>c\<in>set t. c = SPACE \<or> c = DOT)"
  using drop_end_split [of s is_space_or_dot]
  by (simp add: strip_trailing_def is_space_or_dot_def)

lemma strip_trailing_end:
  "strip_trailing s = [] \<or> (last (strip_trailing s) \<noteq> SPACE \<and> last (strip_trailing s) \<noteq> DOT)"
  using drop_end_last [of is_space_or_dot s]
  by (simp add: strip_trailing_def is_space_or_dot_def)

lemma strip_trailing_fix:
  "s = [] \<or> (last s \<noteq> SPACE \<and> last s \<noteq> DOT) \<Longrightarrow> strip_trailing s = s"
  by (simp add: strip_trailing_def drop_end_fix is_space_or_dot_def)

lemma sanitize_split:
  "\<exists>l t. collapse_ws (replace_forbidden s) = l @ sanitizeFileName s @ t \<and>
     (\<forall>c\<in>set l. is_ws c) \<and> (\<forall>c\<in>set t. is_ws c \<or> c = DOT)"
proof -
  let ?b = "collapse_ws (replace_forbidden s)"
  obtain l t1 where b: "?b = l @ trim ?b @ t1" "\<forall>c\<in>set l. is_ws c" "\<forall>c\<in>set t1. is_ws c"
    using trim_split [of ?b] by blast
  obtain t2 where c: "trim ?b = sanitizeFileName s @ t2" "\<forall>c\<in>set t2. c = SPACE \<or> c = DOT"
    using strip_trailing_split [of "trim ?b"] by (auto simp: sanitizeFileName_def)
  have "?b = l @ sanitizeFileName s @ (t2 @ t1)"
    using b(1) c(1) by simp
  moreover have "\<forall>c\<in>set (t2 @ t1). is_ws c \<or> c = DOT"
    using b(3) c(2) by (auto simp: is_ws_SPACE)
  ultimately show ?thesis using b(2) by blast
qed

lemma sanitize_start: "sanitizeFileName s = [] \<or> \<not> is_ws (hd (sanitizeFileName s))"
proof -
  let ?c = "trim (collapse_ws (replace_forbidden s))"
  obtain t where "?c = sanitizeFileName s @ t"
    using strip_trailing_split [of ?c] by (auto simp: sanitizeFileName_def)
  then show ?thesis
    using trim_start [of "collapse_ws (replace_forbidden s)"] by (rule prefix_start)
qed

lemma sanitize_ws_norm: "ws_norm (sanitizeFileName s)"
proof -
  obtain l t where "collapse_ws (replace_forbidden s) = l @ sanitizeFileName s @ t"
    using sanitize_split [of s] by blast
  then have "ws_norm (l @ sanitizeFileName s @ t)"
    using ws_norm_collapse_ws [of "replace_forbidden s"] by simp
  then show ?thesis
    by (blast dest: ws_norm_append)
qed

lemma sanitize_clean: "list_all (\<lambda>c. \<not> is_forbidden c) (sanitizeFileName s)"
proof -
  obtain l t where "collapse_ws (replace_forbidden s) = l @ sanitizeFileName s @ t"
    using sanitize_split [of s] by blast
  then have "set (sanitizeFileName s) \<subseteq> set (collapse_ws (replace_forbidden s))"
    by auto
  also have "\<dots> \<subseteq> insert SPACE (set (replace_forbidden s))"
    by (rule set_collapse_ws)
  finally show ?thesis
    using replace_forbidden_clean [of s] by (auto simp: list_all_iff not_forbidden_SPACE)
qed

lemma sanitize_end:
  "sanitizeFileName s = [] \<or>
     (\<not> is_ws (last (sanitizeFileName s)) \<and> last (sanitizeFileName s) \<noteq> DOT)"
proof (cases "sanitizeFileName s = []")
  case True
  then show ?thesis by simp
next
  case False
  let ?r = "sanitizeFileName s"
  from False have e: "last ?r \<noteq> SPACE" "last ?r \<noteq> DOT"
    using strip_trailing_end [of "trim (collapse_ws (replace_forbidden s))"]
    by (simp_all add: sanitizeFileName_def)
  from False have "last ?r \<in> set ?r" by simp
  with sanitize_ws_norm [of s] e(1) have "\<not> is_ws (last ?r)"
    by (blast dest: ws_norm_ws)
  with e(2) show ?thesis by simp
qed

lemma sanitize_well_formed: "well_formed_name (sanitizeFileName s)"
  using sanitize_clean [of s] sanitize_ws_norm [of s] sanitize_start [of s] sanitize_end [of s]
  by (auto simp: well_formed_name_def)

lemma well_formed_fix: "well_formed_name r \<Longrightarrow> sanitizeFileName r = r"
proof -
  assume w: "well_formed_name r"
  then have 1: "replace_forbidden r = r"
    by (simp add: well_formed_name_def replace_forbidden_fix)
  from w have 2: "collapse_ws r = r"
    by (simp add: well_formed_name_def collapse_ws_fix)
  from w have 3: "trim r = r"
    by (intro trim_fix) (auto simp: well_formed_name_def)
  from w have "r = [] \<or> (last r \<noteq> SPACE \<and> last r \<noteq> DOT)"
    by (auto simp: well_formed_name_def is_ws_SPACE)
  then have 4: "strip_trailing r = r"
    by (rule strip_trailing_fix)
  show ?thesis
    by (simp add: sanitizeFileName_def 1 2 3 4)
qed

text \<open>
  C4: the sanitization is idempotent. A sanitized name is well formed, and a well formed
  name is left as it is.
\<close>

theorem sanitize_idempotent: "sanitizeFileName (sanitizeFileName s) = sanitizeFileName s"
  by (rule well_formed_fix) (rule sanitize_well_formed)

lemma filter_ws_or_dot:
  "\<forall>c\<in>set t. is_ws c \<or> c = DOT \<Longrightarrow>
     filter (\<lambda>c. \<not> is_ws c) t = replicate (length (filter (\<lambda>c. \<not> is_ws c) t)) DOT"
  by (induction t) auto

lemma sanitize_skeleton:
  "\<exists>n. filter (\<lambda>c. \<not> is_ws c) (replace_forbidden s) =
         filter (\<lambda>c. \<not> is_ws c) (sanitizeFileName s) @ replicate n DOT"
proof -
  obtain l t where lt: "collapse_ws (replace_forbidden s) = l @ sanitizeFileName s @ t"
      "\<forall>c\<in>set l. is_ws c" "\<forall>c\<in>set t. is_ws c \<or> c = DOT"
    using sanitize_split [of s] by blast
  have "filter (\<lambda>c. \<not> is_ws c) (replace_forbidden s) =
        filter (\<lambda>c. \<not> is_ws c) (l @ sanitizeFileName s @ t)"
    using filter_collapse_ws [of "replace_forbidden s"] lt(1) by simp
  also have "\<dots> = filter (\<lambda>c. \<not> is_ws c) (sanitizeFileName s) @ filter (\<lambda>c. \<not> is_ws c) t"
    using lt(2) by (simp add: filter_empty_conv)
  finally show ?thesis
    using filter_ws_or_dot [OF lt(3)] by metis
qed



lemmas sanitize_eval = sanitizeFileName_def replace_forbidden_def trim_def strip_trailing_def
  is_space_or_dot_def is_forbidden_def is_ws_def js_Nil js_Cons SPACE_def DOT_def DASH_def

text \<open>
  C3: on the title \<open>Team: Meeting/Alex? \<close> the sanitization returns
  \<open>Team- Meeting-Alex-\<close>: colon, slash and question mark each become a dash and the
  trailing space is stripped.
\<close>

theorem sanitize_team_meeting:
  "sanitizeFileName (js ''Team: Meeting/Alex? '') = js ''Team- Meeting-Alex-''"
  by (simp add: sanitize_eval)

text \<open>
  C2, as stated: the forbidden characters are stripped, that is removed. The code puts a
  dash in the place of each instead, so on \<open>a:b\<close> it returns \<open>a-b\<close> where removal
  gives \<open>ab\<close>.
\<close>

theorem sanitize_removal_counterexample:
  "sanitizeFileName (js ''a:b'') = js ''a-b'' \<and> sanitize_by_removal (js ''a:b'') = js ''ab'' \<and>
   sanitizeFileName (js ''a:b'') \<noteq> sanitize_by_removal (js ''a:b'')"
  by (simp add: sanitize_eval sanitize_by_removal_def)

lemma not_forbidden_DOT: "\<not> is_forbidden DOT"
  by (simp add: is_forbidden_def DOT_def)

lemma DASH_neq_DOT: "DASH \<noteq> DOT"
  by (simp add: DASH_def DOT_def)


lemma sanitize_empty_iff:
  "sanitizeFileName t = [] \<longleftrightarrow> list_all (\<lambda>c. is_ws c \<or> c = DOT) t"
proof
  assume e: "sanitizeFileName t = []"
  obtain n where "filter (\<lambda>c. \<not> is_ws c) (replace_forbidden t) = replicate n DOT"
    using sanitize_skeleton [of t] e by auto
  then have "set (filter (\<lambda>c. \<not> is_ws c) (replace_forbidden t)) \<subseteq> {DOT}"
    by (metis set_replicate_conv_if empty_subsetI subset_refl)
  then have a: "\<forall>c\<in>set (replace_forbidden t). is_ws c \<or> c = DOT"
    by auto
  show "list_all (\<lambda>c. is_ws c \<or> c = DOT) t"
    unfolding list_all_iff
  proof
    fix c assume c: "c \<in> set t"
    then have "(if is_forbidden c then DASH else c) \<in> set (replace_forbidden t)"
      by (auto simp: replace_forbidden_def)
    with a have "is_ws (if is_forbidden c then DASH else c) \<or> (if is_forbidden c then DASH else c) = DOT"
      by blast
    then show "is_ws c \<or> c = DOT"
      by (auto simp: not_ws_DASH DASH_neq_DOT split: if_splits)
  qed
next
  assume a: "list_all (\<lambda>c. is_ws c \<or> c = DOT) t"
  then have "list_all (\<lambda>c. \<not> is_forbidden c) t"
    by (auto simp: list_all_iff not_forbidden_DOT dest: forbidden_not_ws)
  then have rt: "replace_forbidden t = t"
    by (rule replace_forbidden_fix)
  let ?r = "sanitizeFileName t"
  show "?r = []"
  proof (rule ccontr)
    assume ne: "?r \<noteq> []"
    with sanitize_end [of t] have l: "\<not> is_ws (last ?r)" "last ?r \<noteq> DOT"
      by simp_all
    from ne l(1) have "last ?r \<in> set (filter (\<lambda>c. \<not> is_ws c) ?r)"
      by simp
    moreover obtain n where
      "filter (\<lambda>c. \<not> is_ws c) t = filter (\<lambda>c. \<not> is_ws c) ?r @ replicate n DOT"
      using sanitize_skeleton [of t] rt by auto
    ultimately have "last ?r \<in> set (filter (\<lambda>c. \<not> is_ws c) t)"
      by simp
    then have "last ?r \<in> set t"
      by simp
    with a l show False
      by (auto simp: list_all_iff)
  qed
qed

lemma set_trim: "set (trim s) \<subseteq> set s"
proof -
  obtain l t where "s = l @ trim s @ t"
    using trim_split [of s] by blast
  then have "set s = set l \<union> set (trim s) \<union> set t"
    by (metis set_append Un_assoc)
  then show ?thesis by blast
qed

lemma sanitize_trim_empty: "sanitizeFileName t = [] \<Longrightarrow> sanitizeFileName (trim t) = []"
  using set_trim [of t] by (auto simp: sanitize_empty_iff list_all_iff)



lemma ws_words_dropWhile: "ws_words (dropWhile is_ws s) = ws_words s"
  by (induction s) auto

lemma ws_words_ws_Cons: "is_ws c \<Longrightarrow> ws_words (c # cs) = ws_words cs"
  by (simp add: ws_words_dropWhile)

lemma ws_words_Cons:
  assumes "\<not> is_ws c"
  shows "ws_words (c # x) =
     (if x \<noteq> [] \<and> \<not> is_ws (hd x) then (c # hd (ws_words x)) # tl (ws_words x)
      else [c] # ws_words x)"
proof (cases x)
  case Nil
  with assms show ?thesis by simp
next
  case (Cons d ds)
  with assms show ?thesis by simp
qed

declare ws_words.simps(2) [simp del]

lemma ws_words_Nil_iff: "ws_words s = [] \<longleftrightarrow> list_all is_ws s"
proof (induction s)
  case Nil
  show ?case by simp
next
  case (Cons c s)
  then show ?case
    by (cases "is_ws c") (simp_all add: ws_words_ws_Cons ws_words_Cons)
qed

lemma join_words_Cons: "join_words ((c # w) # ws) = c # join_words (w # ws)"
  by (cases ws) auto

lemma collapse_ws_starts:
  "(collapse_ws s \<noteq> [] \<and> \<not> is_ws (hd (collapse_ws s))) = (s \<noteq> [] \<and> \<not> is_ws (hd s))"
  by (cases s) (auto simp: is_ws_SPACE)

lemma ws_words_collapse_ws: "ws_words (collapse_ws s) = ws_words s"
proof (induction s rule: collapse_ws.induct)
  case 1
  show ?case by simp
next
  case (2 c cs)
  show ?case
  proof (cases "is_ws c")
    case True
    with 2 have "ws_words (collapse_ws (c # cs)) = ws_words (dropWhile is_ws cs)"
      by (simp add: is_ws_SPACE ws_words_ws_Cons)
    with True show ?thesis
      by (simp add: ws_words_ws_Cons ws_words_dropWhile)
  next
    case False
    with 2 have ih: "ws_words (collapse_ws cs) = ws_words cs"
      by simp
    from False have "ws_words (collapse_ws (c # cs)) = ws_words (c # collapse_ws cs)"
      by simp
    also have "\<dots> = ws_words (c # cs)"
      using ih collapse_ws_starts [of cs]
      by (simp add: ws_words_Cons [OF False])
    finally show ?thesis .
  qed
qed

lemma ws_words_append_ws:
  assumes "list_all is_ws t"
  shows "ws_words (y @ t) = ws_words y"
proof (induction y)
  case Nil
  from assms show ?case by (simp add: ws_words_Nil_iff)
next
  case (Cons c y)
  show ?case
  proof (cases "is_ws c")
    case True
    with Cons show ?thesis
      by (simp add: ws_words_ws_Cons)
  next
    case False
    have "(y @ t \<noteq> [] \<and> \<not> is_ws (hd (y @ t))) = (y \<noteq> [] \<and> \<not> is_ws (hd y))"
      using assms by (cases y; cases t) auto
    with Cons assms show ?thesis
      by (simp add: ws_words_Cons [OF False] ws_words_Nil_iff)
  qed
qed

lemma ws_words_trim: "ws_words (trim s) = ws_words s"
proof -
  obtain t where t: "dropWhile is_ws s = trim s @ t" "\<forall>c\<in>set t. is_ws c"
    using drop_end_split [of "dropWhile is_ws s" is_ws] by (auto simp: trim_def)
  from t(2) have "ws_words (trim s @ t) = ws_words (trim s)"
    by (intro ws_words_append_ws) (simp add: list_all_iff)
  with t(1) have "ws_words (dropWhile is_ws s) = ws_words (trim s)"
    by simp
  then show ?thesis
    by (simp add: ws_words_dropWhile)
qed

lemma join_ws_words_fix:
  "ws_norm x \<Longrightarrow> x = [] \<or> (\<not> is_ws (hd x) \<and> \<not> is_ws (last x)) \<Longrightarrow> join_words (ws_words x) = x"
proof (induction x rule: length_induct)
  case (1 x)
  show ?case
  proof (cases x)
    case Nil
    then show ?thesis by simp
  next
    case (Cons c rest)
    note x = this
    with 1 have c: "\<not> is_ws c"
      by simp
    show ?thesis
    proof (cases rest)
      case Nil
      with x c show ?thesis by (simp add: ws_words_Cons)
    next
      case (Cons d ds)
      note rest = this
      show ?thesis
      proof (cases "is_ws d")
        case False
        have "ws_norm rest" "rest = [] \<or> (\<not> is_ws (hd rest) \<and> \<not> is_ws (last rest))"
          using 1(2,3) x rest False by (auto simp: ws_norm_Cons)
        moreover have "length rest < length x"
          using x by simp
        ultimately have ih: "join_words (ws_words rest) = rest"
          using 1(1) by blast
        have ne: "ws_words rest \<noteq> []"
          using rest False by (simp add: ws_words_Nil_iff)
        have "ws_words x = (c # hd (ws_words rest)) # tl (ws_words rest)"
          using x rest False by (simp add: ws_words_Cons [OF c])
        then have "join_words (ws_words x) = c # join_words (hd (ws_words rest) # tl (ws_words rest))"
          by (simp only: join_words_Cons)
        with ne ih x show ?thesis
          by simp
      next
        case True
        have n: "ws_norm (c # d # ds)" and l: "\<not> is_ws (last (c # d # ds))"
          using 1(2,3) x rest by auto
        from n True have d: "d = SPACE" and nds: "ws_norm ds"
          by (auto simp: ws_norm_Cons)
        from l True have dsne: "ds \<noteq> []"
          by (cases ds) auto
        from n True dsne have hds: "\<not> is_ws (hd ds)"
          by (auto simp: ws_norm_Cons)
        from l dsne have lds: "\<not> is_ws (last ds)"
          by simp
        have "length ds < length x"
          using x rest by simp
        with nds hds lds have ih: "join_words (ws_words ds) = ds"
          using 1(1) by blast
        have ne: "ws_words ds \<noteq> []"
          using dsne hds by (cases ds) (auto simp: ws_words_Nil_iff)
        have "ws_words x = [c] # ws_words ds"
          using x rest True by (simp add: ws_words_Cons [OF c] ws_words_ws_Cons)
        then have "join_words (ws_words x) = c # SPACE # join_words (ws_words ds)"
          using ne by (cases "ws_words ds") auto
        with ih d x rest show ?thesis
          by simp
      qed
    qed
  qed
qed

lemma trim_end: "trim s = [] \<or> \<not> is_ws (last (trim s))"
  using drop_end_last [of is_ws "dropWhile is_ws s"] by (simp add: trim_def)

lemma ws_norm_trim:
  assumes "ws_norm s"
  shows "ws_norm (trim s)"
proof -
  obtain l t where "s = l @ trim s @ t"
    using trim_split [of s] by blast
  with assms have "ws_norm (l @ trim s @ t)"
    by simp
  then show ?thesis
    by (blast dest: ws_norm_append)
qed

lemma trim_collapse_ws: "trim (collapse_ws a) = join_words (ws_words a)"
proof -
  let ?c = "trim (collapse_ws a)"
  have "join_words (ws_words ?c) = ?c"
    using ws_norm_trim [OF ws_norm_collapse_ws [of a]] trim_start [of "collapse_ws a"]
      trim_end [of "collapse_ws a"]
    by (intro join_ws_words_fix) auto
  then show ?thesis
    by (simp add: ws_words_trim ws_words_collapse_ws)
qed

lemma sanitize_words:
  "\<exists>t. join_words (ws_words (map (\<lambda>c. if is_forbidden c then DASH else c) s)) =
         sanitizeFileName s @ t \<and> list_all (\<lambda>c. c = SPACE \<or> c = DOT) t"
proof -
  obtain t where "trim (collapse_ws (replace_forbidden s)) = sanitizeFileName s @ t"
      "\<forall>c\<in>set t. c = SPACE \<or> c = DOT"
    using strip_trailing_split [of "trim (collapse_ws (replace_forbidden s))"]
    by (auto simp: sanitizeFileName_def)
  then show ?thesis
    by (auto simp: trim_collapse_ws replace_forbidden_def list_all_iff)
qed

lemma digits_small: "n < 10 \<Longrightarrow> digits n = [of_nat (48 + n)]"
  by (simp add: digits.simps)

lemma digits_large: "\<not> n < 10 \<Longrightarrow> digits n = digits (n div 10) @ [of_nat (48 + n mod 10)]"
  by (subst digits.simps) simp

text \<open>
  C2, amended: for every input the sanitization replaces each of the characters
  \<open>\ / : * ? " < > |\<close> by a dash, collapses every run of white space to one space, trims
  white space at both ends and strips the trailing dots and spaces. The result holds no
  forbidden character; its characters other than white space are those of the input
  with dashes for the forbidden ones, up to dots lost at the end; its white space
  consists of single spaces; it neither starts nor ends with white space, and does not
  end with a dot or a space. Where the spaces stand is fixed too: the words of the input
  after the replacement, joined by single spaces, are the result followed by nothing
  but spaces and dots. As the result ends with neither, it is that string without its
  last run of spaces and dots.
\<close>

theorem sanitize_replaces_collapses_trims:
  "list_all (\<lambda>c. \<not> is_forbidden c) (sanitizeFileName s) \<and>
   (\<exists>n. filter (\<lambda>c. \<not> is_ws c) (map (\<lambda>c. if is_forbidden c then DASH else c) s) =
          filter (\<lambda>c. \<not> is_ws c) (sanitizeFileName s) @ replicate n DOT) \<and>
   ws_norm (sanitizeFileName s) \<and>
   (if sanitizeFileName s = [] then True
    else \<not> is_ws (hd (sanitizeFileName s)) \<and> \<not> is_ws (last (sanitizeFileName s)) \<and>
         last (sanitizeFileName s) \<noteq> DOT \<and> last (sanitizeFileName s) \<noteq> SPACE) \<and>
   (\<exists>t. join_words (ws_words (map (\<lambda>c. if is_forbidden c then DASH else c) s)) =
          sanitizeFileName s @ t \<and>
        list_all (\<lambda>c. c = SPACE \<or> c = DOT) t)"
proof -
  have "is_ws (last (sanitizeFileName s)) \<or> last (sanitizeFileName s) \<noteq> SPACE"
    by (auto simp: is_ws_SPACE)
  then show ?thesis
    using sanitize_clean [of s] sanitize_skeleton [of s] sanitize_ws_norm [of s]
      sanitize_start [of s] sanitize_end [of s] sanitize_words [of s]
    by (auto simp: replace_forbidden_def)
qed

theorem sanitize_replaces_collapses_trims_witness:
  "list_all (\<lambda>c. \<not> is_forbidden c) (sanitizeFileName (js '' a:b  c. . ''))  \<and>
   (\<exists>n. filter (\<lambda>c. \<not> is_ws c) (map (\<lambda>c. if is_forbidden c then DASH else c) (js '' a:b  c. . '')) =
          filter (\<lambda>c. \<not> is_ws c) (sanitizeFileName (js '' a:b  c. . '')) @ replicate n DOT) \<and>
   ws_norm (sanitizeFileName (js '' a:b  c. . '')) \<and>
   (if sanitizeFileName (js '' a:b  c. . '') = [] then True
    else \<not> is_ws (hd (sanitizeFileName (js '' a:b  c. . ''))) \<and>
         \<not> is_ws (last (sanitizeFileName (js '' a:b  c. . ''))) \<and>
         last (sanitizeFileName (js '' a:b  c. . '')) \<noteq> DOT \<and>
         last (sanitizeFileName (js '' a:b  c. . '')) \<noteq> SPACE) \<and>
   (\<exists>t. join_words (ws_words (map (\<lambda>c. if is_forbidden c then DASH else c) (js '' a:b  c. . ''))) =
          sanitizeFileName (js '' a:b  c. . '') @ t \<and>
        list_all (\<lambda>c. c = SPACE \<or> c = DOT) t) \<and>
   join_words (ws_words (map (\<lambda>c. if is_forbidden c then DASH else c) (js '' a:b  c. . ''))) =
     js ''a-b c. .'' \<and>
   sanitizeFileName (js '' a:b  c. . '') = js ''a-b c''"
proof -
  have w: "join_words (ws_words (map (\<lambda>c. if is_forbidden c then DASH else c) (js '' a:b  c. . ''))) =
      js ''a-b c. .''"
    by (simp add: js_Nil js_Cons is_forbidden_def is_ws_def ws_words_ws_Cons ws_words_Cons
        SPACE_def DASH_def)
  have e: "sanitizeFileName (js '' a:b  c. . '') = js ''a-b c''"
    by (simp add: sanitize_eval)
  show ?thesis
    using sanitize_replaces_collapses_trims [of "js '' a:b  c. . ''"] w
    unfolding e by simp
qed

lemma notePath_fallback:
  assumes "case title of None \<Rightarrow> True | Some t \<Rightarrow> sanitizeFileName t = []"
  shows "notePath title now = js ''transcriptions/transcription-'' @ number_toString now @ js ''.md''"
proof -
  let ?pt = "trim (case title of None \<Rightarrow> [] | Some t \<Rightarrow> t)"
  have "(if ?pt \<noteq> [] then sanitizeFileName ?pt else []) = []"
  proof (cases title)
    case None
    then show ?thesis by (simp add: trim_def)
  next
    case (Some t)
    with assms have "sanitizeFileName (trim t) = []"
      by (simp add: sanitize_trim_empty)
    with Some show ?thesis by simp
  qed
  then show ?thesis
    by (simp add: notePath_def Let_def js_def)
qed

text \<open>
  C5: when the pending title is absent, empty, or sanitized to the empty string (as the
  empty and the white-space-only titles are), the file name falls back to the time
  stamp: the path is \<open>transcriptions/transcription-<epoch-millis>.md\<close>, and a run whose
  transcription succeeds creates the note at that path.
\<close>

theorem fallback_to_timestamp:
  "(case currentTranscriptionTitle p of None \<Rightarrow> True | Some t \<Rightarrow> sanitizeFileName t = []) \<Longrightarrow>
   notePath (currentTranscriptionTitle p) (Date_now h) =
     js ''transcriptions/transcription-'' @ number_toString (Date_now h) @ js ''.md'' \<and>
   (\<forall>transcription. fst (transcribe h p b pr) = Inr transcription \<longrightarrow>
      VaultCreate (js ''transcriptions/transcription-'' @ number_toString (Date_now h) @ js ''.md'')
        transcription \<in> set (snd (transcribeAndSave h p b pr)))"
proof -
  assume a: "case currentTranscriptionTitle p of None \<Rightarrow> True | Some t \<Rightarrow> sanitizeFileName t = []"
  have np: "notePath (currentTranscriptionTitle p) (Date_now h) =
     js ''transcriptions/transcription-'' @ number_toString (Date_now h) @ js ''.md''"
    using a by (rule notePath_fallback)
  have "\<forall>transcription. fst (transcribe h p b pr) = Inr transcription \<longrightarrow>
      VaultCreate (notePath (currentTranscriptionTitle p) (Date_now h))
        transcription \<in> set (snd (transcribeAndSave h p b pr))"
    by (cases "transcribe h p b pr")
      (auto simp: transcribeAndSave_def Let_def split: sum.splits option.splits)
  with np show ?thesis by simp
qed


theorem fallback_to_timestamp_witness:
  "sanitizeFileName [] = [] \<and> sanitizeFileName (js ''   '') = [] \<and>
   (case currentTranscriptionTitle (sample_plugin\<lparr>currentTranscriptionTitle := Some (js ''   '')\<rparr>) of
      None \<Rightarrow> True | Some t \<Rightarrow> sanitizeFileName t = []) \<and>
   notePath (Some (js ''   '')) 1730000000000 =
     js ''transcriptions/transcription-1730000000000.md'' \<and>
   VaultCreate (js ''transcriptions/transcription-1730000000000.md'') (js ''hello'')
     \<in> set (snd (transcribeAndSave host_ok
         (sample_plugin\<lparr>currentTranscriptionTitle := Some (js ''   '')\<rparr>) sample_blob (js ''T'')))"
proof -
  let ?p = "sample_plugin\<lparr>currentTranscriptionTitle := Some (js ''   '')\<rparr>"
  have e: "sanitizeFileName [] = []" "sanitizeFileName (js ''   '') = []"
    by (simp_all add: sanitize_eval)
  have h: "case currentTranscriptionTitle ?p of None \<Rightarrow> True | Some t \<Rightarrow> sanitizeFileName t = []"
    by (simp add: e)
  have t: "fst (transcribe host_ok ?p sample_blob (js ''T'')) = Inr (js ''hello'')"
    by (simp add: transcribe_def blobToBase64_def host_ok_def sample_blob_def COMMA_def
        js_Nil js_Cons)
  have n: "js ''transcriptions/transcription-'' @ number_toString 1730000000000 @ js ''.md'' =
      js ''transcriptions/transcription-1730000000000.md''"
    by (simp add: number_toString_def digits_small digits_large js_Nil js_Cons)
  have c: "currentTranscriptionTitle ?p = Some (js ''   '')" "Date_now host_ok = 1730000000000"
    by (simp_all add: host_ok_def)
  show ?thesis
    using fallback_to_timestamp [OF h, of host_ok sample_blob "js ''T''"] e h t
    by (simp add: n c)
qed


section \<open>Properties of a run of \<open>transcribeAndSave\<close>\<close>





lemma sample_transcribe:
  "transcribe host_ok sample_plugin sample_blob pr =
     (Inr (js ''hello''),
      [ReadAsDataURL sample_blob,
       GenerateContent (js ''k'') (js ''gemini-1.5-flash'')
         [InlineData (js ''audio/webm'') (Some (js ''AQID'')), Text pr]])"
  by (simp add: transcribe_def blobToBase64_def host_ok_def sample_plugin_def sample_blob_def
      COMMA_def Let_def js_Nil js_Cons)

lemma sample_transcribe_fails:
  "fst (transcribe host_request_fails sample_plugin sample_blob pr) =
     Inl (Thrown (Some (js ''API key not valid'')))"
  by (simp add: transcribe_def blobToBase64_def host_request_fails_def host_ok_def
      sample_blob_def COMMA_def Let_def js_Nil js_Cons)

lemma sample_transcribe_other:
  "fst (transcribe host_save_fails sample_plugin sample_blob pr) = Inr (js ''hello'')"
  "fst (transcribe host_open_fails sample_plugin sample_blob pr) = Inr (js ''hello'')"
  by (simp_all add: transcribe_def blobToBase64_def host_save_fails_def host_open_fails_def
      host_ok_def sample_blob_def COMMA_def Let_def js_Nil js_Cons)

lemma sample_answers:
  "vault_create host_ok path c = None" "openLinkText host_ok path = None"
  "vault_create host_save_fails path c = Some (Thrown (Some (js ''File already exists.'')))"
  "vault_create host_open_fails path c = None" "openLinkText host_open_fails path = Some (Thrown None)"
  by (simp_all add: host_ok_def host_save_fails_def host_open_fails_def)



text \<open>
  C7: the pending title is cleared exactly on the success path of a save. A failed
  transcription call and a failed creation of the note leave it as it was, so the next
  attempt finds it again; once the note is created it is \<open>null\<close>.
\<close>

theorem title_cleared_only_on_success:
  "(\<forall>e. fst (transcribe h p b pr) = Inl e \<longrightarrow>
      currentTranscriptionTitle (fst (transcribeAndSave h p b pr)) = currentTranscriptionTitle p) \<and>
   (\<forall>t e. fst (transcribe h p b pr) = Inr t \<and>
      vault_create h (notePath (currentTranscriptionTitle p) (Date_now h)) t = Some e \<longrightarrow>
      currentTranscriptionTitle (fst (transcribeAndSave h p b pr)) = currentTranscriptionTitle p) \<and>
   (\<forall>t. fst (transcribe h p b pr) = Inr t \<and>
      vault_create h (notePath (currentTranscriptionTitle p) (Date_now h)) t = None \<longrightarrow>
      currentTranscriptionTitle (fst (transcribeAndSave h p b pr)) = None)"
proof -
  obtain r evs where t: "transcribe h p b pr = (r, evs)"
    by (cases "transcribe h p b pr")
  show ?thesis
    using t by (cases r) (auto simp: transcribeAndSave_def Let_def split: option.splits)
qed

theorem title_cleared_only_on_success_witness:
  "fst (transcribe host_request_fails sample_plugin sample_blob (js ''T'')) =
     Inl (Thrown (Some (js ''API key not valid''))) \<and>
   currentTranscriptionTitle
     (fst (transcribeAndSave host_request_fails sample_plugin sample_blob (js ''T''))) =
     Some (js ''Team: Meeting/Alex? '') \<and>
   fst (transcribe host_save_fails sample_plugin sample_blob (js ''T'')) = Inr (js ''hello'') \<and>
   vault_create host_save_fails
     (notePath (currentTranscriptionTitle sample_plugin) (Date_now host_save_fails)) (js ''hello'') =
     Some (Thrown (Some (js ''File already exists.''))) \<and>
   currentTranscriptionTitle
     (fst (transcribeAndSave host_save_fails sample_plugin sample_blob (js ''T''))) =
     Some (js ''Team: Meeting/Alex? '') \<and>
   fst (transcribe host_ok sample_plugin sample_blob (js ''T'')) = Inr (js ''hello'') \<and>
   vault_create host_ok
     (notePath (currentTranscriptionTitle sample_plugin) (Date_now host_ok)) (js ''hello'') = None \<and>
   currentTranscriptionTitle (fst (transcribeAndSave host_ok sample_plugin sample_blob (js ''T''))) =
     None"
proof -
  note hyps = sample_transcribe_fails [of "js ''T''"] sample_transcribe_other [of "js ''T''"]
    sample_transcribe [of "js ''T''"] sample_answers
  have t: "currentTranscriptionTitle sample_plugin = Some (js ''Team: Meeting/Alex? '')"
    by (simp add: sample_plugin_def)
  show ?thesis
    using title_cleared_only_on_success [of host_request_fails sample_plugin sample_blob "js ''T''"]
      title_cleared_only_on_success [of host_save_fails sample_plugin sample_blob "js ''T''"]
      title_cleared_only_on_success [of host_ok sample_plugin sample_blob "js ''T''"]
    by (simp add: hyps t)
qed


section \<open>Properties of the type selection\<close>

lemma take3_transcribeAndSave:
  "take 3 (snd (transcribeAndSave h p b pr)) =
     [ProgressOpen, UpdateStatus Transcribing, CallTranscribe b pr]"
  by (cases "transcribe h p b pr")
    (auto simp: transcribeAndSave_def Let_def split: sum.splits option.splits)

lemma generateContent_attempted:
  "getGenerativeModel h (geminiApiKey (settings p)) (model (settings p)) = None \<Longrightarrow>
   readAsDataURL h b = Inr u \<Longrightarrow>
   take 5 (snd (transcribeAndSave h p b pr)) =
     [ProgressOpen, UpdateStatus Transcribing, CallTranscribe b pr, ReadAsDataURL b,
      GenerateContent (geminiApiKey (settings p)) (model (settings p))
        [InlineData (js ''audio/webm'')
           (case split_at COMMA u of _ # base64Data # _ \<Rightarrow> Some base64Data | _ \<Rightarrow> None),
         Text pr]]"
  by (auto simp: transcribeAndSave_def transcribe_def blobToBase64_def Let_def on_failure_def
      split: sum.splits option.splits)

lemma generateContent_nth:
  assumes "getGenerativeModel h (geminiApiKey (settings p)) (model (settings p)) = None"
    and "readAsDataURL h b = Inr u"
  shows "snd (transcribeAndSave h p b pr) ! 4 =
        GenerateContent (geminiApiKey (settings p)) (model (settings p))
          [InlineData (js ''audio/webm'')
             (case split_at COMMA u of _ # base64Data # _ \<Rightarrow> Some base64Data | _ \<Rightarrow> None),
           Text pr]"
proof -
  have "take 5 (snd (transcribeAndSave h p b pr)) ! 4 = snd (transcribeAndSave h p b pr) ! 4"
    by simp
  then show ?thesis
    using generateContent_attempted [OF assms, of pr] by simp
qed

lemma readAsDataURL_nth:
  assumes "getGenerativeModel h (geminiApiKey (settings p)) (model (settings p)) = None"
  shows "snd (transcribeAndSave h p b pr) ! 3 = ReadAsDataURL b"
  using assms
  by (auto simp: transcribeAndSave_def transcribe_def blobToBase64_def Let_def on_failure_def
      split: sum.splits option.splits)

text \<open>
  C6: whatever custom types are stored, the rows of the type selection are the three
  built-in types Simple, Standard and Detailed with their fixed prompts, followed by the
  stored types in their order. The button of the first row runs \<open>transcribeAndSave\<close> with
  the prompt \<open>Transcribe the audio.\<close>, which calls \<open>transcribe\<close> with that prompt; once
  the blob is read, the request carries it as its text part.
\<close>

theorem simple_template_prompt:
  "rows (onOpen p b) = defaultTypes @ customTranscriptionTypes (settings p) \<and>
   take 3 (rows (onOpen p b)) = defaultTypes \<and>
   drop 3 (rows (onOpen p b)) = customTranscriptionTypes (settings p) \<and>
   map name defaultTypes = [js ''Simple'', js ''Standard'', js ''Detailed''] \<and>
   map prompt defaultTypes =
     [js ''Transcribe the audio.'',
      js ''Transcribe the audio. Also, extract key takeaways and a summary.'',
      js ''Transcribe the audio. Also, extract key takeaways, a summary, action items, and a list of questions asked.''] \<and>
   select_onClick h p (onOpen p b) 0 =
     Some (transcribeAndSave h p b (js ''Transcribe the audio.'')) \<and>
   take 3 (snd (transcribeAndSave h p b (js ''Transcribe the audio.''))) =
     [ProgressOpen, UpdateStatus Transcribing, CallTranscribe b (js ''Transcribe the audio.'')] \<and>
   (\<forall>u. getGenerativeModel h (geminiApiKey (settings p)) (model (settings p)) = None \<and>
        readAsDataURL h b = Inr u \<longrightarrow>
      snd (transcribeAndSave h p b (js ''Transcribe the audio.'')) ! 4 =
        GenerateContent (geminiApiKey (settings p)) (model (settings p))
          [InlineData (js ''audio/webm'')
             (case split_at COMMA u of _ # base64Data # _ \<Rightarrow> Some base64Data | _ \<Rightarrow> None),
           Text (js ''Transcribe the audio.'')])"
proof -
  have l: "length defaultTypes = 3"
    by (simp add: defaultTypes_def)
  have s: "select_onClick h p (onOpen p b) 0 =
     Some (transcribeAndSave h p b (js ''Transcribe the audio.''))"
    by (simp add: select_onClick_def onOpen_def defaultTypes_def)
  show ?thesis
    using l s take3_transcribeAndSave [of h p b "js ''Transcribe the audio.''"]
      generateContent_nth [of h p b _ "js ''Transcribe the audio.''"]
    by (simp add: onOpen_def) (simp add: defaultTypes_def)
qed

theorem simple_template_prompt_witness:
  "map name (rows (onOpen sample_plugin sample_blob)) =
     [js ''Simple'', js ''Standard'', js ''Detailed'', js ''Simple''] \<and>
   getGenerativeModel host_ok (geminiApiKey (settings sample_plugin))
     (model (settings sample_plugin)) = None \<and>
   readAsDataURL host_ok sample_blob = Inr (js ''data:audio/webm;base64,AQID'') \<and>
   snd (transcribeAndSave host_ok sample_plugin sample_blob (js ''Transcribe the audio.'')) ! 4 =
     GenerateContent (js ''k'') (js ''gemini-1.5-flash'')
       [InlineData (js ''audio/webm'') (Some (js ''AQID'')), Text (js ''Transcribe the audio.'')] \<and>
   select_onClick host_ok sample_plugin (onOpen sample_plugin sample_blob) 0 =
     Some (transcribeAndSave host_ok sample_plugin sample_blob (js ''Transcribe the audio.''))"
proof -
  have r: "readAsDataURL host_ok sample_blob = Inr (js ''data:audio/webm;base64,AQID'')"
    "getGenerativeModel host_ok (geminiApiKey (settings sample_plugin))
       (model (settings sample_plugin)) = None"
    by (simp_all add: host_ok_def sample_blob_def)
  have d: "(case split_at COMMA (js ''data:audio/webm;base64,AQID'') of
              _ # base64Data # _ \<Rightarrow> Some base64Data | _ \<Rightarrow> None) = Some (js ''AQID'')"
    by (simp add: COMMA_def js_Nil js_Cons)
  have k: "geminiApiKey (settings sample_plugin) = js ''k''"
    "model (settings sample_plugin) = js ''gemini-1.5-flash''"
    "customTranscriptionTypes (settings sample_plugin) =
       [\<lparr>name = js ''Simple'', description = [], prompt = js ''Summarise.''\<rparr>]"
    by (simp_all add: sample_plugin_def)
  have n: "map name defaultTypes = [js ''Simple'', js ''Standard'', js ''Detailed'']"
    by (simp add: defaultTypes_def)
  show ?thesis
    using simple_template_prompt [of sample_plugin sample_blob host_ok] r
    by (simp add: d k n)
qed


section \<open>Properties of recording\<close>

lemma stop_tracks:
  "foldl (\<lambda>st t. st(t := Ended)) ts xs t' = (if t' \<in> set xs then Ended else ts t')"
  by (induction xs arbitrary: ts) auto

text \<open>
  C8: \<open>stopRecording\<close> with no capture active (no recorder or an inactive one, and no
  stream) changes nothing. With a stream it ends every track of the stream, leaves the
  other tracks alone and sets the stream to \<open>null\<close>, whatever the recorder is: absent,
  inactive, recording or paused.
\<close>

theorem stopRecording_releases_stream:
  "((case mediaRecorder p of None \<Rightarrow> True | Some r \<Rightarrow> state r = Inactive) \<and> stream p = None \<longrightarrow>
      stopRecording p ts = (p, ts)) \<and>
   (\<forall>s. stream p = Some s \<longrightarrow>
      stream (fst (stopRecording p ts)) = None \<and>
      (\<forall>t. snd (stopRecording p ts) t = (if t \<in> set (getTracks s) then Ended else ts t)) \<and>
      (case mediaRecorder (fst (stopRecording p ts)) of
         None \<Rightarrow> mediaRecorder p = None | Some r \<Rightarrow> state r = Inactive))"
  by (auto simp: stopRecording_def Let_def stop_tracks split: option.splits)

theorem stopRecording_releases_stream_witness:
  "(case mediaRecorder sample_plugin of None \<Rightarrow> True | Some r \<Rightarrow> state r = Inactive) \<and>
   stream sample_plugin = None \<and>
   stopRecording sample_plugin (\<lambda>t. Live) = (sample_plugin, \<lambda>t. Live) \<and>
   stream plugin_recording = Some sample_stream \<and>
   stream (fst (stopRecording plugin_recording (\<lambda>t. Live))) = None \<and>
   snd (stopRecording plugin_recording (\<lambda>t. Live)) 0 = Ended \<and>
   snd (stopRecording plugin_recording (\<lambda>t. Live)) 1 = Ended \<and>
   snd (stopRecording plugin_recording (\<lambda>t. Live)) 2 = Live \<and>
   stream (plugin_initialised) = Some sample_stream \<and>
   stream (fst (stopRecording plugin_initialised (\<lambda>t. Live))) = None \<and>
   snd (stopRecording plugin_initialised (\<lambda>t. Live)) 1 = Ended"
proof -
  have a: "(case mediaRecorder sample_plugin of None \<Rightarrow> True | Some r \<Rightarrow> state r = Inactive) \<and>
      stream sample_plugin = None"
    by (simp add: sample_plugin_def)
  have b: "stream plugin_recording = Some sample_stream"
    "stream plugin_initialised = Some sample_stream"
    by (simp_all add: plugin_recording_def plugin_initialised_def)
  have c: "getTracks sample_stream = [0, 1]"
    by (simp add: sample_stream_def)
  show ?thesis
    using stopRecording_releases_stream [of sample_plugin "\<lambda>t. Live"]
      stopRecording_releases_stream [of plugin_recording "\<lambda>t. Live"]
      stopRecording_releases_stream [of plugin_initialised "\<lambda>t. Live"] a b
    by (simp add: c)
qed

lemma initRecording_chunks:
  "initRecording h p = (p1, evs, True) \<Longrightarrow> audioChunks p1 = []"
  by (auto simp: initRecording_def Let_def split: if_splits sum.splits option.splits)

lemma start_chunks: "start p1 = Inr p2 \<Longrightarrow> audioChunks p2 = audioChunks p1"
  by (auto simp: start_def split: option.splits if_splits)

lemma stopRecording_chunks: "stopRecording p2 ts = (p3, ts') \<Longrightarrow> audioChunks p3 = audioChunks p2"
  by (auto simp: stopRecording_def Let_def split: option.splits if_splits)

lemma empty_webm_bytes: "empty_webm = \<lparr>blob_bytes = [], blob_type = js ''audio/webm''\<rparr>"
  by (simp add: empty_webm_def new_Blob_def)

lemma stop_listener_empty:
  assumes "initRecording h p = (p1, evs, True)" and "start p1 = Inr p2"
    and "stopRecording p2 ts = (p3, ts')"
  shows "on_recorder_event p3 Stop = (p3, [OpenTranscriptionTypeModal empty_webm])"
proof -
  have "audioChunks p3 = []"
    using assms initRecording_chunks [of h p p1 evs] start_chunks [of p1 p2]
      stopRecording_chunks [of p2 ts p3 ts'] by simp
  then show ?thesis
    by (simp add: empty_webm_def)
qed

lemma select_onClick_calls:
  assumes "i < length (rows (onOpen q b))"
  shows "case select_onClick h q (onOpen q b) i of
      None \<Rightarrow> False
    | Some run \<Rightarrow>
        take 3 (snd run) =
          [ProgressOpen, UpdateStatus Transcribing,
           CallTranscribe b (prompt (rows (onOpen q b) ! i))] \<and>
        (getGenerativeModel h (geminiApiKey (settings q)) (model (settings q)) = None \<longrightarrow>
           snd run ! 3 = ReadAsDataURL b) \<and>
        (\<forall>u. getGenerativeModel h (geminiApiKey (settings q)) (model (settings q)) = None \<and>
             readAsDataURL h b = Inr u \<longrightarrow>
           snd run ! 4 =
             GenerateContent (geminiApiKey (settings q)) (model (settings q))
          [InlineData (js ''audio/webm'')
             (case split_at COMMA u of _ # base64Data # _ \<Rightarrow> Some base64Data | _ \<Rightarrow> None),
           Text (prompt (rows (onOpen q b) ! i))])"
proof -
  have b: "audioBlob (onOpen q b) = b"
    by (simp add: onOpen_def)
  have "select_onClick h q (onOpen q b) i =
      Some (transcribeAndSave h q b (prompt (rows (onOpen q b) ! i)))"
    using assms by (simp add: select_onClick_def b)
  then show ?thesis
    using take3_transcribeAndSave [of h q b "prompt (rows (onOpen q b) ! i)"]
      readAsDataURL_nth [of h q b "prompt (rows (onOpen q b) ! i)"]
      generateContent_nth [of h q b _ "prompt (rows (onOpen q b) ! i)"]
    by simp
qed

text \<open>
  C9: when the capture is stopped before any \<open>dataavailable\<close> event, the \<open>stop\<close> listener
  opens the type selection with a blob of length zero and type \<open>audio/webm\<close>. The
  selection keeps that blob, and the button of every one of its rows starts a run on
  it: the run calls \<open>transcribe\<close> with the empty blob and the row's prompt, which reads
  the blob and, once the read has loaded, sends the request with its data. Neither
  \<open>transcribeAndSave\<close> nor \<open>transcribe\<close> looks at the size of a blob: a run issues these
  calls for every blob.
\<close>

theorem empty_capture_is_transcribed:
  "(\<forall>p1 evs p2 p3 ts ts'.
      initRecording h p = (p1, evs, True) \<and> start p1 = Inr p2 \<and> stopRecording p2 ts = (p3, ts') \<longrightarrow>
      on_recorder_event p3 Stop = (p3, [OpenTranscriptionTypeModal empty_webm]) \<and>
      audioBlob (onOpen p3 empty_webm) = empty_webm \<and>
      (\<forall>i. i < length (rows (onOpen p3 empty_webm)) \<longrightarrow>
         (case select_onClick h p3 (onOpen p3 empty_webm) i of
            None \<Rightarrow> False
          | Some run \<Rightarrow>
              take 3 (snd run) =
                [ProgressOpen, UpdateStatus Transcribing,
                 CallTranscribe empty_webm (prompt (rows (onOpen p3 empty_webm) ! i))] \<and>
              (getGenerativeModel h (geminiApiKey (settings p3)) (model (settings p3)) = None \<longrightarrow>
                 snd run ! 3 = ReadAsDataURL empty_webm) \<and>
              (\<forall>u. getGenerativeModel h (geminiApiKey (settings p3)) (model (settings p3)) = None \<and>
                   readAsDataURL h empty_webm = Inr u \<longrightarrow>
                 snd run ! 4 =
                   GenerateContent (geminiApiKey (settings p3)) (model (settings p3))
          [InlineData (js ''audio/webm'')
             (case split_at COMMA u of _ # base64Data # _ \<Rightarrow> Some base64Data | _ \<Rightarrow> None),
           Text (prompt (rows (onOpen p3 empty_webm) ! i))])))) \<and>
   empty_webm = \<lparr>blob_bytes = [], blob_type = js ''audio/webm''\<rparr> \<and>
   blob_size empty_webm = 0 \<and>
   take 3 (snd (transcribeAndSave h q b pr)) =
     [ProgressOpen, UpdateStatus Transcribing, CallTranscribe b pr] \<and>
   (getGenerativeModel h (geminiApiKey (settings q)) (model (settings q)) = None \<longrightarrow>
      snd (transcribeAndSave h q b pr) ! 3 = ReadAsDataURL b) \<and>
   (\<forall>u. getGenerativeModel h (geminiApiKey (settings q)) (model (settings q)) = None \<and>
        readAsDataURL h b = Inr u \<longrightarrow>
      snd (transcribeAndSave h q b pr) ! 4 =
        GenerateContent (geminiApiKey (settings q)) (model (settings q))
          [InlineData (js ''audio/webm'')
             (case split_at COMMA u of _ # base64Data # _ \<Rightarrow> Some base64Data | _ \<Rightarrow> None),
           Text pr])"
proof -
  have 1: "\<forall>p1 evs p2 p3 ts ts'.
      initRecording h p = (p1, evs, True) \<and> start p1 = Inr p2 \<and> stopRecording p2 ts = (p3, ts') \<longrightarrow>
      on_recorder_event p3 Stop = (p3, [OpenTranscriptionTypeModal empty_webm])"
    using stop_listener_empty [of h p] by blast
  have 2: "audioBlob (onOpen p3 empty_webm) = empty_webm" for p3
    by (simp add: onOpen_def)
  note 3 = select_onClick_calls [of _ _ empty_webm h]
  have 4: "blob_size empty_webm = 0"
    by (simp add: blob_size_def empty_webm_bytes)
  show ?thesis
    using 1 2 3 4 empty_webm_bytes take3_transcribeAndSave [of h q b pr]
      readAsDataURL_nth [of h q b pr] generateContent_nth [of h q b _ pr]
    by simp
qed

theorem empty_capture_is_transcribed_witness:
  "initRecording host_ok sample_plugin = (plugin_initialised, [GetUserMedia], True) \<and>
   start plugin_initialised = Inr plugin_recording \<and>
   stopRecording plugin_recording (\<lambda>t. Live) = (plugin_stopped, (\<lambda>t. Live)(0 := Ended, 1 := Ended)) \<and>
   on_recorder_event plugin_stopped Stop = (plugin_stopped, [OpenTranscriptionTypeModal empty_webm]) \<and>
   blob_size empty_webm = 0 \<and>
   0 < length (rows (onOpen plugin_stopped empty_webm)) \<and>
   getGenerativeModel host_ok (geminiApiKey (settings plugin_stopped))
     (model (settings plugin_stopped)) = None \<and>
   readAsDataURL host_ok empty_webm = Inr (js ''data:audio/webm;base64,'') \<and>
   (case select_onClick host_ok plugin_stopped (onOpen plugin_stopped empty_webm) 0 of
      None \<Rightarrow> False
    | Some run \<Rightarrow>
        take 3 (snd run) =
          [ProgressOpen, UpdateStatus Transcribing,
           CallTranscribe empty_webm (js ''Transcribe the audio.'')] \<and>
        snd run ! 3 = ReadAsDataURL empty_webm \<and>
        snd run ! 4 =
          GenerateContent (js ''k'') (js ''gemini-1.5-flash'')
            [InlineData (js ''audio/webm'') (Some []), Text (js ''Transcribe the audio.'')])"
proof -
  have i: "initRecording host_ok sample_plugin = (plugin_initialised, [GetUserMedia], True)"
    by (simp add: initRecording_def host_ok_def sample_plugin_def plugin_initialised_def
        sample_stream_def js_Nil js_Cons)
  have s: "start plugin_initialised = Inr plugin_recording"
    by (simp add: start_def plugin_initialised_def plugin_recording_def)
  have t: "stopRecording plugin_recording (\<lambda>t. Live) =
      (plugin_stopped, (\<lambda>t. Live)(0 := Ended, 1 := Ended))"
    by (simp add: stopRecording_def plugin_recording_def plugin_initialised_def plugin_stopped_def
        sample_stream_def Let_def)
  have r: "readAsDataURL host_ok empty_webm = Inr (js ''data:audio/webm;base64,'')"
    "getGenerativeModel host_ok (geminiApiKey (settings plugin_stopped))
       (model (settings plugin_stopped)) = None"
    by (simp_all add: host_ok_def empty_webm_bytes)
  have d: "(case split_at COMMA (js ''data:audio/webm;base64,'') of
              _ # base64Data # _ \<Rightarrow> Some base64Data | _ \<Rightarrow> None) = Some []"
    by (simp add: COMMA_def js_Nil js_Cons)
  have k: "geminiApiKey (settings plugin_stopped) = js ''k''"
    "model (settings plugin_stopped) = js ''gemini-1.5-flash''"
    by (simp_all add: plugin_stopped_def plugin_recording_def plugin_initialised_def
        sample_plugin_def)
  have l: "0 < length (rows (onOpen plugin_stopped empty_webm))"
    "prompt (rows (onOpen plugin_stopped empty_webm) ! 0) = js ''Transcribe the audio.''"
    by (simp_all add: onOpen_def defaultTypes_def)
  note a = empty_capture_is_transcribed
    [THEN conjunct1, rule_format, OF conjI [OF i conjI [OF s t]]]
  have o: "on_recorder_event plugin_stopped Stop =
      (plugin_stopped, [OpenTranscriptionTypeModal empty_webm])"
    using a by (rule conjunct1)
  have c: "case select_onClick host_ok plugin_stopped (onOpen plugin_stopped empty_webm) 0 of
      None \<Rightarrow> False
    | Some run \<Rightarrow>
        take 3 (snd run) =
          [ProgressOpen, UpdateStatus Transcribing,
           CallTranscribe empty_webm (js ''Transcribe the audio.'')] \<and>
        snd run ! 3 = ReadAsDataURL empty_webm \<and>
        snd run ! 4 =
          GenerateContent (js ''k'') (js ''gemini-1.5-flash'')
            [InlineData (js ''audio/webm'') (Some []), Text (js ''Transcribe the audio.'')]"
    using a [THEN conjunct2, THEN conjunct2, rule_format, OF l(1)] r
    by (cases "select_onClick host_ok plugin_stopped (onOpen plugin_stopped empty_webm) 0")
      (simp_all add: d k l(2))
  have z: "blob_size empty_webm = 0"
    using empty_capture_is_transcribed [of host_ok sample_plugin]
    by simp
  from i s t o z l(1) r c show ?thesis
    by simp
qed

text \<open>
  C10: with an empty API key \<open>initRecording\<close> returns \<open>false\<close> after its notice alone:
  \<open>getUserMedia\<close> is not called, the recorder and the stream stay as they were, and the
  start button closes the recording modal instead of starting a capture.
\<close>

theorem missing_key_aborts_before_capture:
  "geminiApiKey (settings p) = [] \<Longrightarrow>
   initRecording h p =
     (p, [Notice (js ''Please set your Gemini API key in the settings.'')], False) \<and>
   GetUserMedia \<notin> set (fst (snd (initRecording h p))) \<and>
   mediaRecorder (fst (initRecording h p)) = mediaRecorder p \<and>
   stream (fst (initRecording h p)) = stream p \<and>
   startButton_onClick h p =
     (p, [Notice (js ''Please set your Gemini API key in the settings.''), RecordingModalClose])"
  by (simp add: initRecording_def startButton_onClick_def)

theorem missing_key_aborts_before_capture_witness:
  "geminiApiKey (settings (sample_plugin\<lparr>settings := DEFAULT_SETTINGS\<rparr>)) = [] \<and>
   initRecording host_ok (sample_plugin\<lparr>settings := DEFAULT_SETTINGS\<rparr>) =
     (sample_plugin\<lparr>settings := DEFAULT_SETTINGS\<rparr>,
      [Notice (js ''Please set your Gemini API key in the settings.'')], False) \<and>
   startButton_onClick host_ok (sample_plugin\<lparr>settings := DEFAULT_SETTINGS\<rparr>) =
     (sample_plugin\<lparr>settings := DEFAULT_SETTINGS\<rparr>,
      [Notice (js ''Please set your Gemini API key in the settings.''), RecordingModalClose])"
proof -
  have k: "geminiApiKey (settings (sample_plugin\<lparr>settings := DEFAULT_SETTINGS\<rparr>)) = []"
    by (simp add: DEFAULT_SETTINGS_def)
  show ?thesis
    using missing_key_aborts_before_capture [OF k, of host_ok] k by simp
qed

end
